theory Spec2Isabelle
  imports Complex_Main
begin

section \<open>The session connection manager of client/src/api/gemini-api.js\<close>

text \<open>
  A shallow embedding of the class \<open>GeminiAPI\<close>. The manager object, the WebSocket objects
  it creates, the promises it hands out and the timers it sets live in one explicit state;
  every method and every event handler the class installs is a function on that state.
  What the class does to the outside (a handler it calls, a frame it transmits, a promise
  it settles) is appended to a trace in the state. \<open>console\<close> output is not modelled,
  and neither is \<open>ensureReady\<close>, which calls \<open>connect\<close> when no live transport exists and
  then only awaits the readiness promise.
\<close>

subsection \<open>JavaScript values\<close>

text \<open>
  The values \<open>JSON.parse\<close> returns, and \<open>undefined\<close> for a property that is absent.
  \<open>JObj\<close> lists the own properties of a parsed object; its keys are distinct (of a
  repeated key \<open>JSON.parse\<close> keeps one value), so \<open>map_of\<close> reads a property.
\<close>

datatype jsval =
    JUndefined
  | JNull
  | JBool bool
  | JNum rat
  | JStr string
  | JArr "jsval list"
  | JObj "(string \<times> jsval) list"

text \<open>The truthiness test of \<open>if (v)\<close> and \<open>v ? a : b\<close>.\<close>

fun truthy :: "jsval \<Rightarrow> bool" where
  "truthy JUndefined = False"
| "truthy JNull = False"
| "truthy (JBool b) = b"
| "truthy (JNum n) = (n \<noteq> 0)"
| "truthy (JStr s) = (s \<noteq> [])"
| "truthy (JArr xs) = True"
| "truthy (JObj kvs) = True"

fun nullish :: "jsval \<Rightarrow> bool" where
  "nullish JUndefined = True"
| "nullish JNull = True"
| "nullish v = False"

text \<open>
  \<open>v.k\<close> for a value that is neither \<open>null\<close> nor \<open>undefined\<close> (on those the access
  throws, which the callers below test first), and for the keys the class reads from a
  frame: \<open>type\<close>, \<open>ready\<close>, \<open>data\<close>. Strings, numbers, booleans and arrays have no such
  property.
\<close>

fun getprop :: "jsval \<Rightarrow> string \<Rightarrow> jsval" where
  "getprop (JObj kvs) k = (case map_of kvs k of Some v \<Rightarrow> v | None \<Rightarrow> JUndefined)"
| "getprop v k = JUndefined"

text \<open>
  Exceptions, each with its \<open>message\<close>. \<open>Error\<close> stands for whatever a caller's handler
  throws and for \<open>new Error(...)\<close>. The text of a \<open>TypeError\<close> is the engine's; the one
  written below is a stand-in for it.
\<close>

datatype exn = SyntaxError string | TypeError string | Error string

fun message :: "exn \<Rightarrow> string" where
  "message (SyntaxError m) = m"
| "message (TypeError m) = m"
| "message (Error m) = m"

definition null_access :: "string \<Rightarrow> exn" where
  "null_access k = TypeError (''Cannot read properties of null, reading '' @ k)"

subsection \<open>The callback registry\<close>

text \<open>
  The nine single-slot handlers. A handler is the caller's code: the model keeps of it
  whether a call returns or throws. What a handler does to the manager (a handler that
  itself calls \<open>connect\<close>, or assigns a field) is outside the model.
\<close>

datatype outcome = Returns | Throws exn

record registry =
  onReady :: outcome
  onAudioData :: "jsval \<Rightarrow> outcome"
  onTextContent :: "jsval \<Rightarrow> outcome"
  onError :: "jsval \<Rightarrow> outcome"
  onTurnComplete :: outcome
  onFunctionCall :: "jsval \<Rightarrow> outcome"
  onFunctionResponse :: "jsval \<Rightarrow> outcome"
  onInterrupted :: "jsval \<Rightarrow> outcome"
  onConnect :: outcome

text \<open>A call of a handler, with the argument the class passes.\<close>

datatype hcall =
    OnReady
  | OnAudioData jsval
  | OnTextContent jsval
  | OnError jsval
  | OnTurnComplete
  | OnFunctionCall jsval
  | OnFunctionResponse jsval
  | OnInterrupted jsval
  | OnConnect

fun behave :: "registry \<Rightarrow> hcall \<Rightarrow> outcome" where
  "behave h OnReady = onReady h"
| "behave h (OnAudioData v) = onAudioData h v"
| "behave h (OnTextContent v) = onTextContent h v"
| "behave h (OnError v) = onError h v"
| "behave h OnTurnComplete = onTurnComplete h"
| "behave h (OnFunctionCall v) = onFunctionCall h v"
| "behave h (OnFunctionResponse v) = onFunctionResponse h v"
| "behave h (OnInterrupted v) = onInterrupted h v"
| "behave h OnConnect = onConnect h"

text \<open>The defaults the constructor assigns: \<open>() => {}\<close> in every slot.\<close>

definition noop_handlers :: registry where
  "noop_handlers =
     \<lparr> onReady = Returns, onAudioData = (\<lambda>v. Returns), onTextContent = (\<lambda>v. Returns),
       onError = (\<lambda>v. Returns), onTurnComplete = Returns, onFunctionCall = (\<lambda>v. Returns),
       onFunctionResponse = (\<lambda>v. Returns), onInterrupted = (\<lambda>v. Returns),
       onConnect = Returns \<rparr>"

subsection \<open>Transports, promises, timers\<close>

datatype ready_state = CONNECTING | OPEN | CLOSING | CLOSED

text \<open>The numeric \<open>readyState\<close> the class compares with \<open>2\<close>.\<close>

fun code :: "ready_state \<Rightarrow> nat" where
  "code CONNECTING = 0"
| "code OPEN = 1"
| "code CLOSING = 2"
| "code CLOSED = 3"

text \<open>The text a frame has on the wire: \<open>JSON.stringify\<close> of a value, kept symbolic.\<close>

datatype wire = JSON_stringify jsval

datatype evkind = EvOpen | EvError

text \<open>
  A WebSocket object. \<open>listeners\<close> are those added with \<open>addEventListener\<close>, in the order
  they were added: the closures \<open>onOpen\<close> and \<open>onError\<close> of one \<open>ensureConnected\<close> call,
  named by the promise that call returned. \<open>wired\<close> says that \<open>setupWebSocket\<close> has
  assigned \<open>onopen\<close>, \<open>onmessage\<close>, \<open>onerror\<close> and \<open>onclose\<close>. \<open>sent\<close> is what
  \<open>send\<close> was given.
\<close>

record socket =
  url :: "string option"
  readyState :: ready_state
  wired :: bool
  listeners :: "(evkind \<times> nat) list"
  sent :: "wire list"

datatype reason = Exn exn | ErrorEvent

datatype pstate = Pending | Fulfilled | Rejected reason

text \<open>What the class does to the outside, in order.\<close>

datatype event =
    Call hcall bool          \<comment> \<open>a handler is called; the value of \<open>isSpeaking\<close> at that moment\<close>
  | NewWebSocket nat         \<comment> \<open>\<open>new WebSocket(endpoint)\<close>: the socket created\<close>
  | ResolveReady nat         \<comment> \<open>\<open>this._resolveReady()\<close> is called: the promise it belongs to\<close>
  | Send nat wire            \<comment> \<open>\<open>ws.send(text)\<close> on a socket\<close>
  | Settle nat pstate        \<comment> \<open>\<open>resolve\<close> or \<open>reject\<close> of an \<open>ensureConnected\<close> promise is called\<close>

text \<open>
  The manager's fields (\<open>endpoint\<close> to \<open>handlers\<close>), then the heap it works on:
  the WebSocket objects by address, the promises by address, the pending timers
  (promise of the \<open>ensureConnected\<close> call, due time in ms), the clock, and the trace.
  \<open>ws\<close>, \<open>readyPromise\<close> and \<open>resolveReady\<close> are \<open>None\<close> for \<open>null\<close>.
\<close>

record state =
  endpoint :: "string option"
  ws :: "nat option"
  isSpeaking :: bool
  readyPromise :: "nat option"
  resolveReady :: "nat option"
  handlers :: registry
  sockets :: "nat \<Rightarrow> socket"
  nsockets :: nat
  promises :: "nat \<Rightarrow> pstate"
  npromises :: nat
  timers :: "(nat \<times> nat) list"
  clock :: nat
  trace :: "event list"

definition fresh_socket :: socket where
  "fresh_socket = \<lparr> url = None, readyState = CONNECTING, wired = False, listeners = [], sent = [] \<rparr>"

text \<open>\<open>constructor(endpoint = null)\<close>, in an empty heap.\<close>

definition constructor :: "string option \<Rightarrow> state" where
  "constructor ep =
     \<lparr> endpoint = ep, ws = None, isSpeaking = False, readyPromise = None, resolveReady = None,
       handlers = noop_handlers,
       sockets = (\<lambda>k. fresh_socket), nsockets = 0,
       promises = (\<lambda>p. Pending), npromises = 0,
       timers = [], clock = 0, trace = [] \<rparr>"

definition emit :: "event \<Rightarrow> state \<Rightarrow> state" where
  "emit e s = s\<lparr>trace := trace s @ [e]\<rparr>"

text \<open>\<open>this.onX(arg)\<close>: the call is traced, and returns or throws as the bound handler does.\<close>

definition invoke :: "hcall \<Rightarrow> state \<Rightarrow> outcome \<times> state" where
  "invoke c s = (behave (handlers s) c, emit (Call c (isSpeaking s)) s)"

text \<open>Settling a promise: a promise already settled keeps its state.\<close>

definition settle :: "nat \<Rightarrow> pstate \<Rightarrow> state \<Rightarrow> state" where
  "settle p st s =
     (if promises s p = Pending then s\<lparr>promises := (promises s)(p := st)\<rparr> else s)"

subsection \<open>connect and setupWebSocket\<close>

text \<open>\<open>setupWebSocket()\<close> assigns the four event handlers of \<open>this.ws\<close>.\<close>

definition setupWebSocket :: "state \<Rightarrow> state" where
  "setupWebSocket s =
     (case ws s of
        None \<Rightarrow> s
      | Some k \<Rightarrow> s\<lparr>sockets := (sockets s)(k := (sockets s k)\<lparr>wired := True\<rparr>)\<rparr>)"

text \<open>
  The guard of \<open>connect\<close>, \<open>this.ws && this.ws.readyState < 2\<close>: a transport exists and
  is CONNECTING or OPEN.
\<close>

definition live :: "state \<Rightarrow> bool" where
  "live s = (case ws s of None \<Rightarrow> False | Some k \<Rightarrow> code (readyState (sockets s k)) < 2)"

text \<open>
  \<open>connect()\<close> returns \<open>this._readyPromise\<close>. The constructor \<open>new WebSocket\<close> is taken
  to succeed: the new socket is in state CONNECTING.
\<close>

definition connect :: "state \<Rightarrow> nat option \<times> state" where
  "connect s =
     (if live s then (readyPromise s, s)
      else
        let k = nsockets s;
            p = npromises s;
            s1 = emit (NewWebSocket k)
                   (s\<lparr>ws := Some k,
                      sockets := (sockets s)(k := fresh_socket\<lparr>url := endpoint s\<rparr>),
                      nsockets := Suc k\<rparr>);
            s2 = s1\<lparr>readyPromise := Some p, resolveReady := Some p,
                    promises := (promises s1)(p := Pending), npromises := Suc p\<rparr>;
            s3 = setupWebSocket s2
        in (readyPromise s3, s3))"

subsection \<open>The onmessage handler\<close>

text \<open>
  An inbound frame, text or Blob, with what decoding it gives: \<open>Inl e\<close> when
  \<open>JSON.parse\<close> throws \<open>e\<close> on the frame's text, \<open>Inr v\<close> when it returns \<open>v\<close>.
  The handler is an async function; for a Blob it goes on after \<open>await event.data.text()\<close>.
  \<open>onmessage\<close> below is the handler's whole run for one frame.
\<close>

datatype frame = TextFrame "exn + jsval" | BlobFrame "exn + jsval"

fun decoded :: "frame \<Rightarrow> exn + jsval" where
  "decoded (TextFrame r) = r"
| "decoded (BlobFrame r) = r"

text \<open>\<open>if (this._resolveReady) { this._resolveReady(); this._resolveReady = null; }\<close>\<close>

definition resolve_ready :: "state \<Rightarrow> state" where
  "resolve_ready s =
     (case resolveReady s of
        None \<Rightarrow> s
      | Some p \<Rightarrow> (settle p Fulfilled (emit (ResolveReady p) s))\<lparr>resolveReady := None\<rparr>)"

text \<open>
  The body of \<open>try\<close> after the frame is parsed; \<open>Throws e\<close> when it throws \<open>e\<close>.
  \<open>response.type\<close> throws on \<open>null\<close>.
\<close>

definition dispatch :: "jsval \<Rightarrow> state \<Rightarrow> outcome \<times> state" where
  "dispatch response s =
     (if nullish response then (Throws (null_access ''type''), s)
      else if getprop response ''type'' = JStr ''error'' then
        invoke (OnError (getprop response ''data'')) s
      else if truthy (getprop response ''ready'') then
        (case invoke OnReady s of
           (Throws e, s1) \<Rightarrow> (Throws e, s1)
         | (Returns, s1) \<Rightarrow> invoke OnConnect (resolve_ready s1))
      else if getprop response ''type'' = JStr ''interrupted'' then
        invoke (OnInterrupted (getprop response ''data'')) (s\<lparr>isSpeaking := False\<rparr>)
      else if getprop response ''type'' = JStr ''audio'' then
        invoke (OnAudioData (getprop response ''data'')) s
      else if getprop response ''type'' = JStr ''text'' then
        invoke (OnTextContent (getprop response ''data'')) s
      else if getprop response ''type'' = JStr ''turn_complete'' then
        invoke OnTurnComplete s
      else if getprop response ''type'' = JStr ''function_call'' then
        invoke (OnFunctionCall (getprop response ''data'')) s
      else if getprop response ''type'' = JStr ''function_response'' then
        invoke (OnFunctionResponse (getprop response ''data'')) s
      else (Returns, s))"

text \<open>The object the \<open>catch\<close> block reports.\<close>

definition client_error :: "exn \<Rightarrow> jsval" where
  "client_error e =
     JObj [(''message'', JStr (''Error parsing response: '' @ message e)),
           (''error_type'', JStr ''client_error'')]"

definition catch_block :: "exn \<Rightarrow> state \<Rightarrow> outcome \<times> state" where
  "catch_block e s = invoke (OnError (client_error e)) s"

text \<open>
  One run of the handler. \<open>Throws e\<close> in the result: the handler's own promise is
  rejected with \<open>e\<close> (the \<open>catch\<close> block threw).
\<close>

definition onmessage :: "frame \<Rightarrow> state \<Rightarrow> outcome \<times> state" where
  "onmessage f s =
     (case decoded f of
        Inl e \<Rightarrow> catch_block e s
      | Inr response \<Rightarrow>
          (case dispatch response s of
             (Returns, s1) \<Rightarrow> (Returns, s1)
           | (Throws e, s1) \<Rightarrow> catch_block e s1))"

subsection \<open>Event handlers for error and close\<close>

definition websocket_error :: jsval where
  "websocket_error =
     JObj [(''message'', JStr ''Connection error occurred''),
           (''action'', JStr ''Please check your internet connection and try again''),
           (''error_type'', JStr ''websocket_error'')]"

definition connection_closed :: jsval where
  "connection_closed =
     JObj [(''message'', JStr ''Connection was interrupted''),
           (''action'', JStr ''Please refresh the page to reconnect''),
           (''error_type'', JStr ''connection_closed'')]"

definition onerror :: "state \<Rightarrow> outcome \<times> state" where
  "onerror s = invoke (OnError websocket_error) s"

definition onclose :: "bool \<Rightarrow> state \<Rightarrow> outcome \<times> state" where
  "onclose wasClean s = (if \<not> wasClean then invoke (OnError connection_closed) s else (Returns, s))"

subsection \<open>Sending\<close>

text \<open>The table \<open>states\<close> of \<open>sendMessage\<close>, read at \<open>this.ws.readyState\<close>.\<close>

fun state_name :: "ready_state \<Rightarrow> string" where
  "state_name CONNECTING = ''CONNECTING''"
| "state_name OPEN = ''OPEN''"
| "state_name CLOSING = ''CLOSING''"
| "state_name CLOSED = ''CLOSED''"

definition not_ready :: "ready_state \<Rightarrow> jsval" where
  "not_ready r = JStr (''WebSocket is not ready (State: '' @ state_name r @ ''). Please try again.'')"

definition ws_send :: "nat \<Rightarrow> wire \<Rightarrow> state \<Rightarrow> state" where
  "ws_send k w s =
     emit (Send k w) (s\<lparr>sockets := (sockets s)(k := (sockets s k)\<lparr>sent := sent (sockets s k) @ [w]\<rparr>)\<rparr>)"

text \<open>
  \<open>sendMessage(message)\<close>. \<open>this.ws.readyState\<close> throws when \<open>this.ws\<close> is \<open>null\<close>; in the
  open branch \<open>message.type\<close> (read for the console) throws when \<open>message\<close> is \<open>null\<close> or
  \<open>undefined\<close>. The result says whether the call returns or throws.
\<close>

definition sendMessage :: "jsval \<Rightarrow> state \<Rightarrow> outcome \<times> state" where
  "sendMessage msg s =
     (case ws s of
        None \<Rightarrow> (Throws (null_access ''readyState''), s)
      | Some k \<Rightarrow>
          if readyState (sockets s k) = OPEN then
            (if nullish msg then (Throws (null_access ''type''), s)
             else (Returns, ws_send k (JSON_stringify msg) s))
          else invoke (OnError (not_ready (readyState (sockets s k)))) s)"

definition sendAudioChunk :: "jsval \<Rightarrow> state \<Rightarrow> outcome \<times> state" where
  "sendAudioChunk base64Audio = sendMessage (JObj [(''type'', JStr ''audio''), (''data'', base64Audio)])"

definition sendImage :: "jsval \<Rightarrow> state \<Rightarrow> outcome \<times> state" where
  "sendImage base64Image = sendMessage (JObj [(''type'', JStr ''image''), (''data'', base64Image)])"

definition sendEndMessage :: "state \<Rightarrow> outcome \<times> state" where
  "sendEndMessage = sendMessage (JObj [(''type'', JStr ''end'')])"

definition sendTextMessage :: "jsval \<Rightarrow> state \<Rightarrow> outcome \<times> state" where
  "sendTextMessage text = sendMessage (JObj [(''type'', JStr ''text''), (''data'', text)])"

definition sendSetupMessage :: "jsval \<Rightarrow> state \<Rightarrow> outcome \<times> state" where
  "sendSetupMessage setupData = sendMessage (JObj [(''type'', JStr ''setup''), (''data'', setupData)])"

subsection \<open>ensureConnected\<close>

definition new_promise :: "pstate \<Rightarrow> state \<Rightarrow> nat \<times> state" where
  "new_promise st s =
     (npromises s, s\<lparr>promises := (promises s)(npromises s := st), npromises := Suc (npromises s)\<rparr>)"

definition timeout_error :: reason where
  "timeout_error = Exn (Error ''Connection timeout'')"

text \<open>
  \<open>ensureConnected()\<close> is an async function: it returns a promise, here by its address.
  An exception in its body (\<open>this.ws\<close> is \<open>null\<close>) rejects that promise. Otherwise the
  promise is the one the executor settles; the executor sets the 5000 ms timer and adds
  the two listeners to \<open>this.ws\<close>.
\<close>

definition ensureConnected :: "state \<Rightarrow> nat \<times> state" where
  "ensureConnected s =
     (case ws s of
        None \<Rightarrow> new_promise (Rejected (Exn (null_access ''readyState''))) s
      | Some k \<Rightarrow>
          if readyState (sockets s k) = OPEN then new_promise Fulfilled s
          else
            (case new_promise Pending s of
               (p, s1) \<Rightarrow>
                 (p, s1\<lparr>timers := timers s1 @ [(p, clock s1 + 5000)],
                        sockets := (sockets s1)
                          (k := (sockets s1 k)
                             \<lparr>listeners := listeners (sockets s1 k) @ [(EvOpen, p), (EvError, p)]\<rparr>)\<rparr>)))"

text \<open>\<open>clearTimeout(timeout)\<close> of the call that returned promise \<open>p\<close>.\<close>

definition clearTimeout :: "nat \<Rightarrow> state \<Rightarrow> state" where
  "clearTimeout p s = s\<lparr>timers := filter (\<lambda>t. fst t \<noteq> p) (timers s)\<rparr>"

text \<open>
  The two \<open>removeEventListener\<close> calls of a closure: they act on \<open>this.ws\<close> as it is when
  the closure runs, and take that call's \<open>onOpen\<close> and \<open>onError\<close> off it.
\<close>

definition removeListeners :: "nat \<Rightarrow> nat \<Rightarrow> state \<Rightarrow> state" where
  "removeListeners k p s =
     s\<lparr>sockets := (sockets s)
          (k := (sockets s k)\<lparr>listeners := filter (\<lambda>l. snd l \<noteq> p) (listeners (sockets s k))\<rparr>)\<rparr>"

text \<open>
  The closures \<open>onOpen\<close> (it resolves) and \<open>onError\<close> (it rejects with the event) of the
  call that returned \<open>p\<close>. With \<open>this.ws\<close> \<open>null\<close> the closure would throw after
  \<open>clearTimeout\<close>.
\<close>

definition listener :: "evkind \<Rightarrow> nat \<Rightarrow> state \<Rightarrow> state" where
  "listener e p s =
     (let s1 = clearTimeout p s in
      case ws s1 of
        None \<Rightarrow> s1
      | Some k \<Rightarrow>
          (let st = (case e of EvOpen \<Rightarrow> Fulfilled | EvError \<Rightarrow> Rejected ErrorEvent)
           in settle p st (emit (Settle p st) (removeListeners k p s1))))"

text \<open>The timer's callback: it rejects, and does nothing else.\<close>

definition on_timeout :: "nat \<Rightarrow> state \<Rightarrow> state" where
  "on_timeout p s = settle p (Rejected timeout_error) (emit (Settle p (Rejected timeout_error)) s)"

subsection \<open>The environment: transport events and time\<close>

text \<open>
  The browser delivers an event of a socket to the handler \<open>setupWebSocket\<close> assigned
  (when it has) and then to the listeners added for that kind of event, in the order they
  were added. An exception a handler throws out of an event callback is reported by the
  browser and ends that callback only. A closure of \<open>ensureConnected\<close> takes off only the
  two listeners of its own call, so it removes no listener that is still to run in the
  same delivery.
\<close>

definition run_listeners :: "evkind \<Rightarrow> nat \<Rightarrow> state \<Rightarrow> state" where
  "run_listeners e k s =
     fold (\<lambda>l. listener e (snd l)) (filter (\<lambda>l. fst l = e) (listeners (sockets s k))) s"

definition set_readyState :: "nat \<Rightarrow> ready_state \<Rightarrow> state \<Rightarrow> state" where
  "set_readyState k r s = s\<lparr>sockets := (sockets s)(k := (sockets s k)\<lparr>readyState := r\<rparr>)\<rparr>"

text \<open>The socket opens: \<open>onopen\<close> only writes to the console.\<close>

definition opened :: "nat \<Rightarrow> state \<Rightarrow> state" where
  "opened k s = run_listeners EvOpen k (set_readyState k OPEN s)"

definition received :: "nat \<Rightarrow> frame \<Rightarrow> state \<Rightarrow> state" where
  "received k f s = (if wired (sockets s k) then snd (onmessage f s) else s)"

definition errored :: "nat \<Rightarrow> state \<Rightarrow> state" where
  "errored k s = run_listeners EvError k (if wired (sockets s k) then snd (onerror s) else s)"

definition closed :: "nat \<Rightarrow> bool \<Rightarrow> state \<Rightarrow> state" where
  "closed k wasClean s =
     (let s1 = set_readyState k CLOSED s
      in if wired (sockets s1 k) then snd (onclose wasClean s1) else s1)"

text \<open>Time passes: the clock advances, and the timers that are due fire in the order set.\<close>

definition elapse :: "nat \<Rightarrow> state \<Rightarrow> state" where
  "elapse ms s =
     (let now = clock s + ms;
          due = filter (\<lambda>t. snd t \<le> now) (timers s);
          s1 = s\<lparr>clock := now, timers := filter (\<lambda>t. \<not> snd t \<le> now) (timers s)\<rparr>
      in fold (\<lambda>t. on_timeout (fst t)) due s1)"

text \<open>
  What can happen to a manager: the caller calls a method or assigns the handlers, the
  transport raises an event on a socket (\<open>Closing\<close>: \<open>close()\<close> was called on it), or
  time passes.
\<close>

datatype action =
    Connect
  | SendMessage jsval
  | EnsureConnected
  | SetHandlers registry
  | Opened nat
  | Received nat frame
  | Errored nat
  | Closing nat
  | Closed nat bool
  | Elapse nat

fun step :: "action \<Rightarrow> state \<Rightarrow> state" where
  "step Connect s = snd (connect s)"
| "step (SendMessage m) s = snd (sendMessage m s)"
| "step EnsureConnected s = snd (ensureConnected s)"
| "step (SetHandlers h) s = s\<lparr>handlers := h\<rparr>"
| "step (Opened k) s = opened k s"
| "step (Received k f) s = received k f s"
| "step (Errored k) s = errored k s"
| "step (Closing k) s = set_readyState k CLOSING s"
| "step (Closed k c) s = closed k c s"
| "step (Elapse ms) s = elapse ms s"

definition run :: "action list \<Rightarrow> state \<Rightarrow> state" where
  "run as s = fold step as s"

subsection \<open>Reading the trace\<close>

text \<open>The handler calls in a trace, in order.\<close>

fun calls :: "event list \<Rightarrow> hcall list" where
  "calls [] = []"
| "calls (Call c b # es) = c # calls es"
| "calls (e # es) = calls es"

text \<open>The promises whose \<open>_resolveReady\<close> was called, in order.\<close>

fun resolved :: "event list \<Rightarrow> nat list" where
  "resolved [] = []"
| "resolved (ResolveReady p # es) = p # resolved es"
| "resolved (e # es) = resolved es"

text \<open>The handler calls of one run of \<open>onmessage\<close>.\<close>

definition frame_calls :: "frame \<Rightarrow> state \<Rightarrow> hcall list" where
  "frame_calls f s = calls (drop (length (trace s)) (trace (snd (onmessage f s))))"

text \<open>
  A parsed frame that reaches the \<open>ready\<close> branch: it is not \<open>null\<close>, its \<open>type\<close> is not
  \<open>error\<close>, and its \<open>ready\<close> field is truthy.
\<close>

definition ready_signal :: "jsval \<Rightarrow> bool" where
  "ready_signal v = (\<not> nullish v \<and> getprop v ''type'' \<noteq> JStr ''error'' \<and> truthy (getprop v ''ready''))"

fun is_string :: "jsval \<Rightarrow> bool" where
  "is_string (JStr x) = True"
| "is_string v = False"

text \<open>
  An error report in tagged form: an object with a string \<open>error_type\<close> and a string
  \<open>message\<close> or \<open>action\<close>.
\<close>

fun tagged :: "jsval \<Rightarrow> bool" where
  "tagged (JObj kvs) =
     (is_string (getprop (JObj kvs) ''error_type'') \<and>
      (is_string (getprop (JObj kvs) ''message'') \<or> is_string (getprop (JObj kvs) ''action'')))"
| "tagged v = False"

text \<open>What holds of \<open>_resolveReady\<close> in every state a manager reaches: no promise was resolved
  twice, and the resolver kept belongs to a promise not yet resolved.\<close>

definition resolver_ok :: "state \<Rightarrow> bool" where
  "resolver_ok s =
     (distinct (resolved (trace s))
      \<and> (\<forall>p \<in> set (resolved (trace s)). p < npromises s)
      \<and> (case resolveReady s of
            None \<Rightarrow> True
          | Some p \<Rightarrow> p < npromises s \<and> p \<notin> set (resolved (trace s))))"

text \<open>
  The promises that listeners and timers refer to: those of \<open>ensureConnected\<close> calls.
\<close>

definition refs :: "state \<Rightarrow> nat set" where
  "refs s = {q. \<exists>k e. (e, q) \<in> set (listeners (sockets s k))} \<union> {q. \<exists>d. (q, d) \<in> set (timers s)}"

text \<open>
  A step from \<open>s\<close> to \<open>s'\<close> that leaves the readiness promise \<open>r\<close> and its resolver alone.
\<close>

definition keeps :: "nat option \<Rightarrow> state \<Rightarrow> state \<Rightarrow> bool" where
  "keeps r s s' =
     ((\<forall>p. r = Some p \<longrightarrow> promises s' p = promises s p)
      \<and> readyPromise s' = readyPromise s \<and> resolveReady s' = resolveReady s
      \<and> npromises s' = npromises s \<and> resolved (trace s') = resolved (trace s)
      \<and> refs s' \<subseteq> refs s)"

text \<open>
  What holds of the readiness promise in every state a manager reaches: no listener and no
  timer refers to it, and it is pending with its resolver kept, or fulfilled with the
  resolver called and dropped.
\<close>

definition wiring_ok :: "state \<Rightarrow> bool" where
  "wiring_ok s =
     ((\<forall>q \<in> refs s. q < npromises s \<and> readyPromise s \<noteq> Some q)
      \<and> (readyPromise s = None \<longrightarrow> resolveReady s = None)
      \<and> (\<forall>p. readyPromise s = Some p \<longrightarrow>
              p < npromises s \<and>
              (resolveReady s = Some p \<and> promises s p = Pending \<and> p \<notin> set (resolved (trace s))
               \<or> resolveReady s = None \<and> promises s p = Fulfilled \<and> p \<in> set (resolved (trace s)))))"

section \<open>Basic facts\<close>

lemma calls_append [simp]: "calls (xs @ ys) = calls xs @ calls ys"
  by (induction xs rule: calls.induct) simp_all

lemma resolved_append [simp]: "resolved (xs @ ys) = resolved xs @ resolved ys"
  by (induction xs rule: resolved.induct) simp_all

lemma count_resolved: "count_list es (ResolveReady p) = count_list (resolved es) p"
  by (induction es rule: resolved.induct) simp_all

lemma nullish_getprop [simp]: "nullish v \<Longrightarrow> getprop v k = JUndefined"
  by (cases v) simp_all

lemma fold_keeps: "(\<And>x s. F (g x s) = F s) \<Longrightarrow> F (fold g xs s) = F s"
  by (induction xs arbitrary: s) simp_all

lemma emit_simps [simp]:
  "trace (emit e s) = trace s @ [e]"
  "isSpeaking (emit e s) = isSpeaking s"
  "handlers (emit e s) = handlers s"
  "resolveReady (emit e s) = resolveReady s"
  "readyPromise (emit e s) = readyPromise s"
  "npromises (emit e s) = npromises s"
  "promises (emit e s) = promises s"
  "ws (emit e s) = ws s"
  "sockets (emit e s) = sockets s"
  "timers (emit e s) = timers s"
  "clock (emit e s) = clock s"
  by (simp_all add: emit_def)

lemma settle_simps [simp]:
  "trace (settle p st s) = trace s"
  "isSpeaking (settle p st s) = isSpeaking s"
  "handlers (settle p st s) = handlers s"
  "resolveReady (settle p st s) = resolveReady s"
  "readyPromise (settle p st s) = readyPromise s"
  "npromises (settle p st s) = npromises s"
  "ws (settle p st s) = ws s"
  "sockets (settle p st s) = sockets s"
  "timers (settle p st s) = timers s"
  "clock (settle p st s) = clock s"
  by (simp_all add: settle_def)

lemma invoke_simps [simp]:
  "fst (invoke c s) = behave (handlers s) c"
  "snd (invoke c s) = emit (Call c (isSpeaking s)) s"
  by (simp_all add: invoke_def)

lemma resolve_ready_simps [simp]:
  "isSpeaking (resolve_ready s) = isSpeaking s"
  "handlers (resolve_ready s) = handlers s"
  "readyPromise (resolve_ready s) = readyPromise s"
  "npromises (resolve_ready s) = npromises s"
  "ws (resolve_ready s) = ws s"
  "sockets (resolve_ready s) = sockets s"
  "timers (resolve_ready s) = timers s"
  "resolveReady (resolve_ready s) = None"
  "calls (trace (resolve_ready s)) = calls (trace s)"
  by (simp_all add: resolve_ready_def split: option.splits)

lemma clearTimeout_simps [simp]:
  "trace (clearTimeout p s) = trace s"
  "isSpeaking (clearTimeout p s) = isSpeaking s"
  "handlers (clearTimeout p s) = handlers s"
  "resolveReady (clearTimeout p s) = resolveReady s"
  "readyPromise (clearTimeout p s) = readyPromise s"
  "npromises (clearTimeout p s) = npromises s"
  "promises (clearTimeout p s) = promises s"
  "ws (clearTimeout p s) = ws s"
  "sockets (clearTimeout p s) = sockets s"
  by (simp_all add: clearTimeout_def)

lemma removeListeners_simps [simp]:
  "trace (removeListeners k p s) = trace s"
  "isSpeaking (removeListeners k p s) = isSpeaking s"
  "handlers (removeListeners k p s) = handlers s"
  "resolveReady (removeListeners k p s) = resolveReady s"
  "readyPromise (removeListeners k p s) = readyPromise s"
  "npromises (removeListeners k p s) = npromises s"
  "promises (removeListeners k p s) = promises s"
  "ws (removeListeners k p s) = ws s"
  "timers (removeListeners k p s) = timers s"
  by (simp_all add: removeListeners_def)

lemma set_readyState_simps [simp]:
  "trace (set_readyState k r s) = trace s"
  "isSpeaking (set_readyState k r s) = isSpeaking s"
  "handlers (set_readyState k r s) = handlers s"
  "resolveReady (set_readyState k r s) = resolveReady s"
  "readyPromise (set_readyState k r s) = readyPromise s"
  "npromises (set_readyState k r s) = npromises s"
  "promises (set_readyState k r s) = promises s"
  "ws (set_readyState k r s) = ws s"
  "timers (set_readyState k r s) = timers s"
  by (simp_all add: set_readyState_def)

lemma listener_simps [simp]:
  "isSpeaking (listener e p s) = isSpeaking s"
  "handlers (listener e p s) = handlers s"
  "resolveReady (listener e p s) = resolveReady s"
  "readyPromise (listener e p s) = readyPromise s"
  "npromises (listener e p s) = npromises s"
  "ws (listener e p s) = ws s"
  "resolved (trace (listener e p s)) = resolved (trace s)"
  by (simp_all add: listener_def Let_def split: option.splits)

lemma on_timeout_simps [simp]:
  "isSpeaking (on_timeout p s) = isSpeaking s"
  "handlers (on_timeout p s) = handlers s"
  "resolveReady (on_timeout p s) = resolveReady s"
  "readyPromise (on_timeout p s) = readyPromise s"
  "npromises (on_timeout p s) = npromises s"
  "ws (on_timeout p s) = ws s"
  "resolved (trace (on_timeout p s)) = resolved (trace s)"
  by (simp_all add: on_timeout_def)

lemma run_listeners_simps [simp]:
  "isSpeaking (run_listeners e k s) = isSpeaking s"
  "handlers (run_listeners e k s) = handlers s"
  "resolveReady (run_listeners e k s) = resolveReady s"
  "readyPromise (run_listeners e k s) = readyPromise s"
  "npromises (run_listeners e k s) = npromises s"
  "ws (run_listeners e k s) = ws s"
  "resolved (trace (run_listeners e k s)) = resolved (trace s)"
  unfolding run_listeners_def by (rule fold_keeps, simp)+

lemma elapse_simps [simp]:
  "isSpeaking (elapse ms s) = isSpeaking s"
  "handlers (elapse ms s) = handlers s"
  "resolveReady (elapse ms s) = resolveReady s"
  "readyPromise (elapse ms s) = readyPromise s"
  "npromises (elapse ms s) = npromises s"
  "ws (elapse ms s) = ws s"
  "resolved (trace (elapse ms s)) = resolved (trace s)"
  unfolding elapse_def Let_def by (subst fold_keeps, simp, simp)+

lemma dispatch_simps [simp]:
  "handlers (snd (dispatch v s)) = handlers s"
  "readyPromise (snd (dispatch v s)) = readyPromise s"
  "npromises (snd (dispatch v s)) = npromises s"
  "ws (snd (dispatch v s)) = ws s"
  "sockets (snd (dispatch v s)) = sockets s"
  "timers (snd (dispatch v s)) = timers s"
  by (simp_all add: dispatch_def invoke_def split: outcome.splits)

lemma catch_block_simps [simp]:
  "fst (catch_block e s) = onError (handlers s) (client_error e)"
  "snd (catch_block e s) = emit (Call (OnError (client_error e)) (isSpeaking s)) s"
  by (simp_all add: catch_block_def)

lemma onmessage_Inl: "decoded f = Inl e \<Longrightarrow> onmessage f s = catch_block e s"
  by (simp add: onmessage_def)

lemma onmessage_Inr:
  "decoded f = Inr v \<Longrightarrow>
   onmessage f s =
     (case fst (dispatch v s) of
        Returns \<Rightarrow> (Returns, snd (dispatch v s))
      | Throws e \<Rightarrow> catch_block e (snd (dispatch v s)))"
  by (simp add: onmessage_def split: prod.splits outcome.splits)

lemma onmessage_simps [simp]:
  "handlers (snd (onmessage f s)) = handlers s"
  "readyPromise (snd (onmessage f s)) = readyPromise s"
  "npromises (snd (onmessage f s)) = npromises s"
  "ws (snd (onmessage f s)) = ws s"
  "sockets (snd (onmessage f s)) = sockets s"
  "timers (snd (onmessage f s)) = timers s"
  by (cases "decoded f"; simp add: onmessage_Inl onmessage_Inr split: outcome.splits)+

lemma dispatch_speaking: "isSpeaking (snd (dispatch v s)) \<Longrightarrow> isSpeaking s"
  by (simp add: dispatch_def invoke_def split: outcome.splits if_splits)

lemma onmessage_speaking: "isSpeaking (snd (onmessage f s)) \<Longrightarrow> isSpeaking s"
  by (cases "decoded f")
     (auto simp add: onmessage_Inl onmessage_Inr split: outcome.splits dest: dispatch_speaking)

lemma setupWebSocket_simps [simp]:
  "trace (setupWebSocket s) = trace s"
  "isSpeaking (setupWebSocket s) = isSpeaking s"
  "handlers (setupWebSocket s) = handlers s"
  "resolveReady (setupWebSocket s) = resolveReady s"
  "readyPromise (setupWebSocket s) = readyPromise s"
  "npromises (setupWebSocket s) = npromises s"
  "promises (setupWebSocket s) = promises s"
  "ws (setupWebSocket s) = ws s"
  "timers (setupWebSocket s) = timers s"
  by (simp_all add: setupWebSocket_def split: option.splits)

lemma connect_live: "live s \<Longrightarrow> connect s = (readyPromise s, s)"
  by (simp add: connect_def)

lemma connect_fresh:
  assumes "\<not> live s"
  shows "fst (connect s) = Some (npromises s)"
    and "readyPromise (snd (connect s)) = Some (npromises s)"
    and "resolveReady (snd (connect s)) = Some (npromises s)"
    and "npromises (snd (connect s)) = Suc (npromises s)"
    and "ws (snd (connect s)) = Some (nsockets s)"
    and "nsockets (snd (connect s)) = Suc (nsockets s)"
    and "trace (snd (connect s)) = trace s @ [NewWebSocket (nsockets s)]"
    and "readyState (sockets (snd (connect s)) (nsockets s)) = CONNECTING"
    and "wired (sockets (snd (connect s)) (nsockets s))"
    and "promises (snd (connect s)) (npromises s) = Pending"
  using assms by (simp_all add: connect_def Let_def setupWebSocket_def fresh_socket_def emit_def)

lemma connect_simps [simp]:
  "isSpeaking (snd (connect s)) = isSpeaking s"
  "handlers (snd (connect s)) = handlers s"
  "timers (snd (connect s)) = timers s"
  "resolved (trace (snd (connect s))) = resolved (trace s)"
  "fst (connect s) = readyPromise (snd (connect s))"
  by (simp_all add: connect_def Let_def)

lemma live_connect: "live (snd (connect s))"
  by (cases "live s") (simp_all add: connect_live connect_fresh live_def)

lemma ws_send_simps [simp]:
  "trace (ws_send k w s) = trace s @ [Send k w]"
  "isSpeaking (ws_send k w s) = isSpeaking s"
  "handlers (ws_send k w s) = handlers s"
  "resolveReady (ws_send k w s) = resolveReady s"
  "readyPromise (ws_send k w s) = readyPromise s"
  "npromises (ws_send k w s) = npromises s"
  "promises (ws_send k w s) = promises s"
  "ws (ws_send k w s) = ws s"
  "timers (ws_send k w s) = timers s"
  by (simp_all add: ws_send_def)

lemma sendMessage_simps [simp]:
  "isSpeaking (snd (sendMessage m s)) = isSpeaking s"
  "handlers (snd (sendMessage m s)) = handlers s"
  "resolveReady (snd (sendMessage m s)) = resolveReady s"
  "readyPromise (snd (sendMessage m s)) = readyPromise s"
  "npromises (snd (sendMessage m s)) = npromises s"
  "promises (snd (sendMessage m s)) = promises s"
  "ws (snd (sendMessage m s)) = ws s"
  "timers (snd (sendMessage m s)) = timers s"
  "resolved (trace (snd (sendMessage m s))) = resolved (trace s)"
  by (simp_all add: sendMessage_def split: option.splits)

lemma new_promise_simps [simp]:
  "fst (new_promise st s) = npromises s"
  "trace (snd (new_promise st s)) = trace s"
  "isSpeaking (snd (new_promise st s)) = isSpeaking s"
  "handlers (snd (new_promise st s)) = handlers s"
  "resolveReady (snd (new_promise st s)) = resolveReady s"
  "readyPromise (snd (new_promise st s)) = readyPromise s"
  "npromises (snd (new_promise st s)) = Suc (npromises s)"
  "promises (snd (new_promise st s)) = (promises s)(npromises s := st)"
  "ws (snd (new_promise st s)) = ws s"
  "sockets (snd (new_promise st s)) = sockets s"
  "timers (snd (new_promise st s)) = timers s"
  "clock (snd (new_promise st s)) = clock s"
  by (simp_all add: new_promise_def)

lemma ensureConnected_simps [simp]:
  "fst (ensureConnected s) = npromises s"
  "trace (snd (ensureConnected s)) = trace s"
  "isSpeaking (snd (ensureConnected s)) = isSpeaking s"
  "handlers (snd (ensureConnected s)) = handlers s"
  "resolveReady (snd (ensureConnected s)) = resolveReady s"
  "readyPromise (snd (ensureConnected s)) = readyPromise s"
  "npromises (snd (ensureConnected s)) = Suc (npromises s)"
  "ws (snd (ensureConnected s)) = ws s"
  by (simp_all add: ensureConnected_def split_beta split: option.splits)

lemma onerror_simps [simp]:
  "isSpeaking (snd (onerror s)) = isSpeaking s"
  "handlers (snd (onerror s)) = handlers s"
  "resolveReady (snd (onerror s)) = resolveReady s"
  "readyPromise (snd (onerror s)) = readyPromise s"
  "npromises (snd (onerror s)) = npromises s"
  "ws (snd (onerror s)) = ws s"
  "resolved (trace (snd (onerror s))) = resolved (trace s)"
  by (simp_all add: onerror_def)

lemma onclose_simps [simp]:
  "isSpeaking (snd (onclose c s)) = isSpeaking s"
  "handlers (snd (onclose c s)) = handlers s"
  "resolveReady (snd (onclose c s)) = resolveReady s"
  "readyPromise (snd (onclose c s)) = readyPromise s"
  "npromises (snd (onclose c s)) = npromises s"
  "ws (snd (onclose c s)) = ws s"
  "resolved (trace (snd (onclose c s))) = resolved (trace s)"
  by (simp_all add: onclose_def)

lemma opened_simps [simp]:
  "isSpeaking (opened k s) = isSpeaking s"
  "handlers (opened k s) = handlers s"
  "resolveReady (opened k s) = resolveReady s"
  "readyPromise (opened k s) = readyPromise s"
  "npromises (opened k s) = npromises s"
  "ws (opened k s) = ws s"
  "resolved (trace (opened k s)) = resolved (trace s)"
  by (simp_all add: opened_def)

lemma errored_simps [simp]:
  "isSpeaking (errored k s) = isSpeaking s"
  "handlers (errored k s) = handlers s"
  "resolveReady (errored k s) = resolveReady s"
  "readyPromise (errored k s) = readyPromise s"
  "npromises (errored k s) = npromises s"
  "ws (errored k s) = ws s"
  "resolved (trace (errored k s)) = resolved (trace s)"
  by (simp_all add: errored_def)

lemma closed_simps [simp]:
  "isSpeaking (closed k c s) = isSpeaking s"
  "handlers (closed k c s) = handlers s"
  "resolveReady (closed k c s) = resolveReady s"
  "readyPromise (closed k c s) = readyPromise s"
  "npromises (closed k c s) = npromises s"
  "ws (closed k c s) = ws s"
  "resolved (trace (closed k c s)) = resolved (trace s)"
  by (simp_all add: closed_def Let_def)

lemma received_simps [simp]:
  "handlers (received k f s) = handlers s"
  "readyPromise (received k f s) = readyPromise s"
  "npromises (received k f s) = npromises s"
  "ws (received k f s) = ws s"
  "sockets (received k f s) = sockets s"
  "timers (received k f s) = timers s"
  by (simp_all add: received_def)

lemma step_speaking: "isSpeaking (step a s) \<Longrightarrow> isSpeaking s"
  by (cases a) (auto simp: received_def dest: onmessage_speaking split: if_splits)

lemma step_readyPromise: "a \<noteq> Connect \<Longrightarrow> readyPromise (step a s) = readyPromise s"
  by (cases a) simp_all

lemma run_simps [simp]:
  "run [] s = s"
  "run (a # as) s = run as (step a s)"
  "run (as @ bs) s = run bs (run as s)"
  by (simp_all add: run_def)

lemma run_readyPromise: "Connect \<notin> set as \<Longrightarrow> readyPromise (run as s) = readyPromise s"
  by (induction as arbitrary: s) (auto simp: step_readyPromise)

text \<open>The definitions a run on concrete input unfolds.\<close>

lemmas eval_defs = constructor_def connect_def live_def Let_def emit_def setupWebSocket_def
  fresh_socket_def noop_handlers_def onmessage_def dispatch_def catch_block_def invoke_def
  resolve_ready_def settle_def received_def opened_def set_readyState_def run_listeners_def
  run_def

section \<open>The speaking flag\<close>

text \<open>
  Claim C1, as the code has it. The class never sets \<open>isSpeaking\<close> to true: the flag is
  false after the constructor, no method call, transport event or timer turns it from
  false to true, and handling an \<open>audio\<close> envelope leaves it as it was. Handling an
  envelope tagged \<open>interrupted\<close> that carries no truthy \<open>ready\<close> field leaves the flag false.
\<close>

theorem speaking_flag:
  "isSpeaking (constructor ep) = False
   \<and> (isSpeaking (step a s) \<longrightarrow> isSpeaking s)
   \<and> (decoded f = Inr v \<and> getprop v ''type'' = JStr ''audio'' \<longrightarrow>
        isSpeaking (snd (onmessage f s)) = isSpeaking s)
   \<and> (decoded f = Inr v \<and> getprop v ''type'' = JStr ''interrupted'' \<and> \<not> truthy (getprop v ''ready'') \<longrightarrow>
        isSpeaking (snd (onmessage f s)) = False)"
proof (intro conjI impI)
  show "isSpeaking (constructor ep) = False" by (simp add: constructor_def)
  show "isSpeaking s" if "isSpeaking (step a s)" using that by (rule step_speaking)
  show "isSpeaking (snd (onmessage f s)) = isSpeaking s"
    if "decoded f = Inr v \<and> getprop v ''type'' = JStr ''audio''"
    using that by (simp add: onmessage_Inr dispatch_def invoke_def split: outcome.splits)
  show "isSpeaking (snd (onmessage f s)) = False"
    if "decoded f = Inr v \<and> getprop v ''type'' = JStr ''interrupted'' \<and> \<not> truthy (getprop v ''ready'')"
    using that by (cases "nullish v") (simp_all add: onmessage_Inr dispatch_def invoke_def split: outcome.splits)
qed

text \<open>The theorem at an \<open>interrupted\<close> envelope, with the flag set by the caller beforehand.\<close>

theorem speaking_flag_witness:
  "isSpeaking (snd (onmessage (TextFrame (Inr (JObj [(''type'', JStr ''interrupted''), (''data'', JObj [])])))
      ((constructor None)\<lparr>isSpeaking := True\<rparr>))) = False"
  using speaking_flag [where f = "TextFrame (Inr (JObj [(''type'', JStr ''interrupted''), (''data'', JObj [])]))"
      and v = "JObj [(''type'', JStr ''interrupted''), (''data'', JObj [])]"
      and s = "(constructor None)\<lparr>isSpeaking := True\<rparr>"]
  by simp

text \<open>
  On a fresh connection an \<open>audio\<close> envelope leaves the flag false; and where the caller has
  set the flag, a \<open>turn_complete\<close> envelope leaves it true.
\<close>

theorem speaking_flag_counterexample:
  "isSpeaking (snd (onmessage (TextFrame (Inr (JObj [(''type'', JStr ''audio''), (''data'', JStr ''UklGRg=='')])))
      (snd (connect (constructor None))))) = False
   \<and> isSpeaking (snd (onmessage (TextFrame (Inr (JObj [(''type'', JStr ''turn_complete'')])))
      ((snd (connect (constructor None)))\<lparr>isSpeaking := True\<rparr>))) = True"
  by (simp add: onmessage_Inr dispatch_def invoke_def constructor_def noop_handlers_def)

section \<open>One group of handlers per frame\<close>







section \<open>Sending\<close>



text \<open>
  Claim C5 at the input where it fails: on a manager whose \<open>connect\<close> was never called,
  \<open>sendMessage\<close> and the five wrappers throw the \<open>TypeError\<close> of \<open>this.ws.readyState\<close>;
  no handler is called and the state is as it was. \<open>ensureConnected\<close>, an async function,
  returns a promise rejected with that \<open>TypeError\<close>.
\<close>

theorem sendMessage_before_connect:
  "sendMessage m (constructor ep) = (Throws (null_access ''readyState''), constructor ep)
   \<and> sendAudioChunk a (constructor ep) = (Throws (null_access ''readyState''), constructor ep)
   \<and> sendImage i (constructor ep) = (Throws (null_access ''readyState''), constructor ep)
   \<and> sendEndMessage (constructor ep) = (Throws (null_access ''readyState''), constructor ep)
   \<and> sendTextMessage t (constructor ep) = (Throws (null_access ''readyState''), constructor ep)
   \<and> sendSetupMessage c (constructor ep) = (Throws (null_access ''readyState''), constructor ep)
   \<and> trace (constructor ep) = []
   \<and> promises (snd (ensureConnected (constructor ep))) (fst (ensureConnected (constructor ep)))
       = Rejected (Exn (null_access ''readyState''))"
  by (simp add: sendMessage_def sendAudioChunk_def sendImage_def sendEndMessage_def
      sendTextMessage_def sendSetupMessage_def constructor_def ensureConnected_def new_promise_def)

text \<open>
  Claim C6 at the input where it fails: \<open>sendMessage\<close> on a transport still CONNECTING
  hands \<open>onError\<close> a bare string, which is not in tagged form; the three other reports of
  the class are.
\<close>

theorem not_ready_report_untagged:
  "trace (snd (sendMessage (JObj [(''type'', JStr ''end'')]) (snd (connect (constructor None)))))
     = [NewWebSocket 0,
        Call (OnError (JStr ''WebSocket is not ready (State: CONNECTING). Please try again.'')) False]
   \<and> \<not> tagged (JStr ''WebSocket is not ready (State: CONNECTING). Please try again.'')
   \<and> tagged (client_error e) \<and> tagged websocket_error \<and> tagged connection_closed"
  by (simp add: sendMessage_def invoke_def not_ready_def eval_defs client_error_def
      websocket_error_def connection_closed_def)

section \<open>ensureConnected\<close>

text \<open>
  The paths of \<open>ensureConnected\<close> that do what the class intends. On an open transport the
  call only creates a fulfilled promise: no timer, no listener. Otherwise the promise is
  pending, with a timer due 5000 ms later and the two listeners on the transport. Before a
  timer is due, time passing fires nothing. The open event and the error event settle the
  promise, clear the timer and take both listeners off.
\<close>

lemma ensureConnected_open:
  "ws s = Some k \<Longrightarrow> readyState (sockets s k) = OPEN \<Longrightarrow>
   ensureConnected s =
     (npromises s, s\<lparr>promises := (promises s)(npromises s := Fulfilled), npromises := Suc (npromises s)\<rparr>)"
  by (simp add: ensureConnected_def new_promise_def)

lemma ensureConnected_waiting:
  "ws s = Some k \<Longrightarrow> readyState (sockets s k) \<noteq> OPEN \<Longrightarrow>
   promises (snd (ensureConnected s)) (npromises s) = Pending
   \<and> timers (snd (ensureConnected s)) = timers s @ [(npromises s, clock s + 5000)]
   \<and> listeners (sockets (snd (ensureConnected s)) k) =
       listeners (sockets s k) @ [(EvOpen, npromises s), (EvError, npromises s)]"
  by (simp add: ensureConnected_def new_promise_def)

lemma elapse_not_due:
  "\<forall>t \<in> set (timers s). clock s + ms < snd t \<Longrightarrow> elapse ms s = s\<lparr>clock := clock s + ms\<rparr>"
proof -
  assume h: "\<forall>t \<in> set (timers s). clock s + ms < snd t"
  then have "filter (\<lambda>t. snd t \<le> clock s + ms) (timers s) = []"
    by (auto simp: filter_empty_conv)
  moreover from h have "filter (\<lambda>t. \<not> snd t \<le> clock s + ms) (timers s) = timers s"
    by (auto simp: filter_id_conv)
  ultimately show ?thesis by (simp add: elapse_def Let_def)
qed

lemma ensureConnected_settled_by_event:
  "(let s = run [Connect, EnsureConnected, Elapse 4999] (constructor None)
    in promises s 1 = Pending \<and> timers s = [(1, 5000)])
   \<and> (let s = run [Connect, EnsureConnected, Elapse 4999, Opened 0] (constructor None)
      in promises s 1 = Fulfilled \<and> timers s = [] \<and> listeners (sockets s 0) = [])
   \<and> (let s = run [Connect, EnsureConnected, Elapse 4999, Errored 0] (constructor None)
      in promises s 1 = Rejected ErrorEvent \<and> timers s = [] \<and> listeners (sockets s 0) = [])"
  by (simp add: eval_defs ensureConnected_def new_promise_def elapse_def on_timeout_def
      listener_def clearTimeout_def removeListeners_def errored_def onerror_def)

text \<open>
  Claim C9 at the input where it fails: \<open>ensureConnected\<close> on a transport that is
  CONNECTING, then 5000 ms without an event. The timer rejects the promise with the
  timeout error, and both listeners are still on the socket; when the socket opens later,
  the left-over \<open>onOpen\<close> calls \<open>resolve\<close> on the promise already rejected.
\<close>

theorem timeout_leaves_listeners:
  "(let s = run [Connect, EnsureConnected, Elapse 5000] (constructor None)
    in promises s 1 = Rejected timeout_error
       \<and> timers s = []
       \<and> listeners (sockets s 0) = [(EvOpen, 1), (EvError, 1)]
       \<and> trace s = [NewWebSocket 0, Settle 1 (Rejected timeout_error)]
       \<and> trace (step (Opened 0) s) = trace s @ [Settle 1 Fulfilled])"
  by (simp add: eval_defs ensureConnected_def new_promise_def elapse_def on_timeout_def
      listener_def clearTimeout_def removeListeners_def)

section \<open>The scenario ready, text, turn_complete\<close>



section \<open>connect\<close>

text \<open>
  Claim C4. When a transport exists and is CONNECTING or OPEN, \<open>connect\<close> changes
  nothing (no new transport) and returns \<open>this._readyPromise\<close>. A second call right after
  a first one returns the promise the first call returned, and so does a second call after
  any activity other than \<open>connect\<close> that leaves the transport CONNECTING or OPEN.
\<close>

theorem connect_idempotent:
  "(ws s = Some k \<and> (readyState (sockets s k) = CONNECTING \<or> readyState (sockets s k) = OPEN) \<longrightarrow>
      connect s = (readyPromise s, s))
   \<and> connect (snd (connect s)) = (fst (connect s), snd (connect s))
   \<and> (Connect \<notin> set as \<and> ws (run as (snd (connect s))) = Some k
        \<and> (readyState (sockets (run as (snd (connect s))) k) = CONNECTING
             \<or> readyState (sockets (run as (snd (connect s))) k) = OPEN) \<longrightarrow>
      connect (run as (snd (connect s))) = (fst (connect s), run as (snd (connect s))))"
proof (intro conjI impI)
  have live_if: "live t" if "ws t = Some k \<and> (readyState (sockets t k) = CONNECTING \<or> readyState (sockets t k) = OPEN)"
    for t using that by (auto simp: live_def)
  show "connect s = (readyPromise s, s)"
    if "ws s = Some k \<and> (readyState (sockets s k) = CONNECTING \<or> readyState (sockets s k) = OPEN)"
    using live_if [OF that] by (rule connect_live)
  show "connect (snd (connect s)) = (fst (connect s), snd (connect s))"
    using connect_live [OF live_connect [of s]] by simp
  show "connect (run as (snd (connect s))) = (fst (connect s), run as (snd (connect s)))"
    if h: "Connect \<notin> set as \<and> ws (run as (snd (connect s))) = Some k
        \<and> (readyState (sockets (run as (snd (connect s))) k) = CONNECTING
             \<or> readyState (sockets (run as (snd (connect s))) k) = OPEN)"
  proof -
    from h have "live (run as (snd (connect s)))" by (intro live_if) simp
    then have "connect (run as (snd (connect s))) = (readyPromise (run as (snd (connect s))), run as (snd (connect s)))"
      by (rule connect_live)
    moreover from h have "readyPromise (run as (snd (connect s))) = readyPromise (snd (connect s))"
      by (intro run_readyPromise) simp
    ultimately show ?thesis by simp
  qed
qed

text \<open>
  The theorem on a fresh manager: the second call, and a call after \<open>ensureConnected\<close>, the
  open event and a send, return promise 0 of the first call, and one socket exists.
\<close>

theorem connect_idempotent_witness:
  "(let s1 = snd (connect (constructor None));
        s2 = run [EnsureConnected, Opened 0, SendMessage (JObj [(''type'', JStr ''end'')])] s1
    in fst (connect (constructor None)) = Some 0
       \<and> connect s1 = (Some 0, s1)
       \<and> connect s2 = (Some 0, s2)
       \<and> nsockets s2 = 1)"
proof -
  let ?s0 = "constructor None"
  let ?s1 = "snd (connect ?s0)"
  let ?as = "[EnsureConnected, Opened 0, SendMessage (JObj [(''type'', JStr ''end'')])]"
  let ?s2 = "run ?as ?s1"
  have p: "fst (connect ?s0) = Some 0" by (simp add: eval_defs)
  have a: "ws ?s1 = Some 0 \<and> (readyState (sockets ?s1 0) = CONNECTING \<or> readyState (sockets ?s1 0) = OPEN)"
    by (simp add: eval_defs)
  have b: "Connect \<notin> set ?as \<and> ws ?s2 = Some 0
        \<and> (readyState (sockets ?s2 0) = CONNECTING \<or> readyState (sockets ?s2 0) = OPEN)"
    by (simp add: eval_defs ensureConnected_def new_promise_def listener_def clearTimeout_def
        removeListeners_def sendMessage_def ws_send_def)
  have n: "nsockets ?s2 = 1"
    by (simp add: eval_defs ensureConnected_def new_promise_def listener_def clearTimeout_def
        removeListeners_def sendMessage_def ws_send_def)
  from connect_idempotent [of ?s0 0 ?as] b
  have "connect ?s1 = (fst (connect ?s0), ?s1)" and "connect ?s2 = (fst (connect ?s0), ?s2)"
    by blast+
  with p n show ?thesis
    unfolding Let_def by (intro conjI) (simp_all only: )
qed

section \<open>The readiness promise\<close>

lemma dispatch_resolve:
  "resolveReady (snd (dispatch v s)) = resolveReady s
     \<and> resolved (trace (snd (dispatch v s))) = resolved (trace s)
   \<or> (\<exists>p. resolveReady s = Some p \<and> ready_signal v
          \<and> resolveReady (snd (dispatch v s)) = None
          \<and> resolved (trace (snd (dispatch v s))) = resolved (trace s) @ [p])"
  by (simp add: dispatch_def invoke_def resolve_ready_def ready_signal_def
      split: outcome.splits option.splits)

lemma onmessage_resolve:
  "resolveReady (snd (onmessage f s)) = resolveReady s
     \<and> resolved (trace (snd (onmessage f s))) = resolved (trace s)
   \<or> (\<exists>p v. resolveReady s = Some p \<and> decoded f = Inr v \<and> ready_signal v
          \<and> resolveReady (snd (onmessage f s)) = None
          \<and> resolved (trace (snd (onmessage f s))) = resolved (trace s) @ [p])"
proof (cases "decoded f")
  case (Inl e)
  then show ?thesis by (simp add: onmessage_Inl)
next
  case (Inr v)
  with dispatch_resolve [of v s] show ?thesis
    by (cases "fst (dispatch v s)") (auto simp: onmessage_Inr)
qed

lemma step_resolve:
  "resolveReady (step a s) = resolveReady s \<and> resolved (trace (step a s)) = resolved (trace s)
     \<and> npromises s \<le> npromises (step a s)
   \<or> (\<exists>p k f v. resolveReady s = Some p \<and> a = Received k f \<and> decoded f = Inr v \<and> ready_signal v
          \<and> resolveReady (step a s) = None
          \<and> resolved (trace (step a s)) = resolved (trace s) @ [p]
          \<and> npromises (step a s) = npromises s)
   \<or> (a = Connect \<and> resolveReady (step a s) = Some (npromises s)
          \<and> resolved (trace (step a s)) = resolved (trace s)
          \<and> npromises (step a s) = Suc (npromises s))"
proof (cases a)
  case Connect
  then show ?thesis by (cases "live s") (simp_all add: connect_live connect_fresh)
next
  case (Received k f)
  with onmessage_resolve [of f s] show ?thesis by (auto simp: received_def)
qed simp_all

lemma step_resolveReady_None:
  "a \<noteq> Connect \<Longrightarrow> resolveReady s = None \<Longrightarrow> resolveReady (step a s) = None"
  using step_resolve [of a s] by auto

lemma run_resolveReady_None:
  "Connect \<notin> set as \<Longrightarrow> resolveReady s = None \<Longrightarrow> resolveReady (run as s) = None"
  by (induction as arbitrary: s) (auto simp: step_resolveReady_None)

lemma resolver_ok_constructor: "resolver_ok (constructor ep)"
  by (simp add: resolver_ok_def constructor_def)

lemma resolver_ok_step: "resolver_ok s \<Longrightarrow> resolver_ok (step a s)"
  using step_resolve [of a s]
  by (auto simp: resolver_ok_def split: option.splits)
     (meson less_le_trans less_SucI)+

lemma resolver_ok_run: "resolver_ok s \<Longrightarrow> resolver_ok (run as s)"
  by (induction as arbitrary: s) (simp_all add: resolver_ok_step)

lemma count_distinct_le: "distinct xs \<Longrightarrow> count_list xs x \<le> 1"
  by (induction xs) auto

lemma refs_same:
  "(\<And>k. listeners (sockets s' k) = listeners (sockets s k)) \<Longrightarrow> timers s' = timers s \<Longrightarrow> refs s' = refs s"
  by (simp add: refs_def)

lemma refs_simps [simp]:
  "refs (emit e s) = refs s"
  "refs (settle p st s) = refs s"
  "refs (set_readyState k r s) = refs s"
  "refs (ws_send k w s) = refs s"
  "refs (s\<lparr>isSpeaking := b\<rparr>) = refs s"
  "refs (s\<lparr>handlers := h\<rparr>) = refs s"
  "refs (resolve_ready s) = refs s"
  "refs (s\<lparr>promises := f\<rparr>) = refs s"
  "refs (s\<lparr>resolveReady := x\<rparr>) = refs s"
  by (rule refs_same; simp add: set_readyState_def ws_send_def)+

lemma refs_subset:
  "refs (clearTimeout q s) \<subseteq> refs s"
  "refs (removeListeners k q s) \<subseteq> refs s"
  by (auto simp: refs_def clearTimeout_def removeListeners_def split: if_splits)

lemma keeps_refl [simp]: "keeps r s s"
  by (simp add: keeps_def)

lemma keeps_trans: "keeps r s t \<Longrightarrow> keeps r t u \<Longrightarrow> keeps r s u"
  by (auto simp: keeps_def)

lemma wiring_ok_keeps: "wiring_ok s \<Longrightarrow> keeps (readyPromise s) s s' \<Longrightarrow> wiring_ok s'"
  unfolding wiring_ok_def keeps_def by (intro conjI ballI allI impI; (elim conjE)?) auto

lemma settle_promises: "p \<noteq> q \<Longrightarrow> promises (settle q st s) p = promises s p"
  by (simp add: settle_def)

lemma listener_more:
  "p \<noteq> q \<Longrightarrow> promises (listener e q s) p = promises s p"
  "refs (listener e q s) \<subseteq> refs s"
  using refs_subset(1) [of q s] refs_subset(2) [of _ q "clearTimeout q s"]
  by (auto simp: listener_def Let_def settle_promises split: option.splits)

lemma on_timeout_more:
  "p \<noteq> q \<Longrightarrow> promises (on_timeout q s) p = promises s p"
  "refs (on_timeout q s) = refs s"
  by (simp_all add: on_timeout_def settle_promises)

lemma listener_keeps:
  assumes "r \<noteq> Some q"
  shows "keeps r s (listener e q s)"
  unfolding keeps_def
proof (intro conjI allI impI)
  fix p assume "r = Some p"
  with assms have "p \<noteq> q" by auto
  then show "promises (listener e q s) p = promises s p" by (rule listener_more(1))
qed (simp_all add: listener_more)

lemma on_timeout_keeps:
  assumes "r \<noteq> Some q"
  shows "keeps r s (on_timeout q s)"
  unfolding keeps_def
proof (intro conjI allI impI)
  fix p assume "r = Some p"
  with assms have "p \<noteq> q" by auto
  then show "promises (on_timeout q s) p = promises s p" by (rule on_timeout_more(1))
qed (simp_all add: on_timeout_more)

lemma fold_listener_keeps:
  "\<forall>l \<in> set ls. r \<noteq> Some (snd l) \<Longrightarrow> keeps r s (fold (\<lambda>l. listener e (snd l)) ls s)"
proof (induction ls arbitrary: s)
  case Nil
  then show ?case by simp
next
  case (Cons l ls)
  have "keeps r s (listener e (snd l) s)" using Cons.prems by (simp add: listener_keeps)
  moreover have "keeps r (listener e (snd l) s) (fold (\<lambda>l. listener e (snd l)) ls (listener e (snd l) s))"
    using Cons.prems by (intro Cons.IH) simp
  ultimately show ?case by (simp add: keeps_trans)
qed

lemma fold_on_timeout_keeps:
  "\<forall>t \<in> set ts. r \<noteq> Some (fst t) \<Longrightarrow> keeps r s (fold (\<lambda>t. on_timeout (fst t)) ts s)"
proof (induction ts arbitrary: s)
  case Nil
  then show ?case by simp
next
  case (Cons t ts)
  have "keeps r s (on_timeout (fst t) s)" using Cons.prems by (simp add: on_timeout_keeps)
  moreover have "keeps r (on_timeout (fst t) s) (fold (\<lambda>t. on_timeout (fst t)) ts (on_timeout (fst t) s))"
    using Cons.prems by (intro Cons.IH) simp
  ultimately show ?case by (simp add: keeps_trans)
qed

lemma wiring_ok_simps [simp]:
  "wiring_ok (emit (Call c b) s) = wiring_ok s"
  "wiring_ok (s\<lparr>isSpeaking := b\<rparr>) = wiring_ok s"
  "wiring_ok (s\<lparr>handlers := h\<rparr>) = wiring_ok s"
  "wiring_ok (set_readyState k r s) = wiring_ok s"
  "wiring_ok (ws_send k w s) = wiring_ok s"
  by (simp_all add: wiring_ok_def)

lemma wiring_ok_resolve_ready: "wiring_ok s \<Longrightarrow> wiring_ok (resolve_ready s)"
  unfolding wiring_ok_def
  by (cases "resolveReady s") (auto simp: resolve_ready_def settle_def)

lemma wiring_ok_dispatch: "wiring_ok s \<Longrightarrow> wiring_ok (snd (dispatch v s))"
  by (simp add: dispatch_def invoke_def wiring_ok_resolve_ready split: outcome.splits)

lemma wiring_ok_onmessage: "wiring_ok s \<Longrightarrow> wiring_ok (snd (onmessage f s))"
  by (cases "decoded f")
     (simp_all add: onmessage_Inl onmessage_Inr wiring_ok_dispatch split: outcome.splits)

lemma wiring_ok_sendMessage: "wiring_ok s \<Longrightarrow> wiring_ok (snd (sendMessage m s))"
  by (simp add: sendMessage_def invoke_def split: option.splits)

lemma wiring_ok_run_listeners:
  assumes "wiring_ok s"
  shows "wiring_ok (run_listeners e k s)"
proof -
  have "\<forall>l \<in> set (filter (\<lambda>l. fst l = e) (listeners (sockets s k))). readyPromise s \<noteq> Some (snd l)"
    using assms by (auto simp: wiring_ok_def refs_def)
  then have "keeps (readyPromise s) s (run_listeners e k s)"
    unfolding run_listeners_def by (rule fold_listener_keeps)
  with assms show ?thesis by (rule wiring_ok_keeps)
qed

lemma wiring_ok_elapse:
  assumes ok: "wiring_ok s"
  shows "wiring_ok (elapse ms s)"
proof -
  let ?now = "clock s + ms"
  let ?s1 = "s\<lparr>clock := ?now, timers := filter (\<lambda>t. \<not> snd t \<le> ?now) (timers s)\<rparr>"
  have "keeps (readyPromise s) s ?s1" by (auto simp: keeps_def refs_def)
  with ok have ok1: "wiring_ok ?s1" by (rule wiring_ok_keeps)
  have "\<forall>t \<in> set (filter (\<lambda>t. snd t \<le> ?now) (timers s)). readyPromise ?s1 \<noteq> Some (fst t)"
    using ok by (auto simp: wiring_ok_def refs_def)
  then have "keeps (readyPromise ?s1) ?s1 (fold (\<lambda>t. on_timeout (fst t)) (filter (\<lambda>t. snd t \<le> ?now) (timers s)) ?s1)"
    by (rule fold_on_timeout_keeps)
  with ok1 have "wiring_ok (fold (\<lambda>t. on_timeout (fst t)) (filter (\<lambda>t. snd t \<le> ?now) (timers s)) ?s1)"
    by (rule wiring_ok_keeps)
  then show ?thesis by (simp add: elapse_def Let_def)
qed

lemma refs_ensureConnected: "refs (snd (ensureConnected s)) \<subseteq> insert (npromises s) (refs s)"
  by (auto simp: refs_def ensureConnected_def new_promise_def split: option.splits if_splits)

lemma promises_ensureConnected:
  "p < npromises s \<Longrightarrow> promises (snd (ensureConnected s)) p = promises s p"
  by (auto simp: ensureConnected_def new_promise_def split: option.splits)

lemma wiring_ok_ensureConnected:
  assumes ok: "wiring_ok s"
  shows "wiring_ok (snd (ensureConnected s))"
  unfolding wiring_ok_def
proof (intro conjI ballI allI impI)
  fix q assume "q \<in> refs (snd (ensureConnected s))"
  with refs_ensureConnected [of s] have "q = npromises s \<or> q \<in> refs s" by auto
  with ok show "q < npromises (snd (ensureConnected s))" "readyPromise (snd (ensureConnected s)) \<noteq> Some q"
    by (auto simp: wiring_ok_def)
next
  assume "readyPromise (snd (ensureConnected s)) = None"
  with ok show "resolveReady (snd (ensureConnected s)) = None" by (simp add: wiring_ok_def)
next
  fix p assume "readyPromise (snd (ensureConnected s)) = Some p"
  then have p: "readyPromise s = Some p" by simp
  with ok have "p < npromises s" by (simp add: wiring_ok_def)
  with ok p promises_ensureConnected [of p s]
  show "p < npromises (snd (ensureConnected s))"
    "resolveReady (snd (ensureConnected s)) = Some p \<and> promises (snd (ensureConnected s)) p = Pending
       \<and> p \<notin> set (resolved (trace (snd (ensureConnected s))))
     \<or> resolveReady (snd (ensureConnected s)) = None \<and> promises (snd (ensureConnected s)) p = Fulfilled
       \<and> p \<in> set (resolved (trace (snd (ensureConnected s))))"
    by (simp_all add: wiring_ok_def)
qed

lemma refs_connect: "refs (snd (connect s)) \<subseteq> refs s"
  by (auto simp: refs_def connect_def Let_def setupWebSocket_def emit_def fresh_socket_def
      split: if_splits)

lemma wiring_ok_connect:
  assumes r: "resolver_ok s" and ok: "wiring_ok s"
  shows "wiring_ok (snd (connect s))"
proof (cases "live s")
  case True
  with ok show ?thesis by (simp add: connect_live)
next
  case False
  from r have fresh: "npromises s \<notin> set (resolved (trace s))"
    by (auto simp: resolver_ok_def)
  show ?thesis
    unfolding wiring_ok_def
  proof (intro conjI ballI allI impI)
    fix q assume "q \<in> refs (snd (connect s))"
    with refs_connect [of s] have "q \<in> refs s" by auto
    with ok have "q < npromises s" by (simp add: wiring_ok_def)
    then show "q < npromises (snd (connect s))" "readyPromise (snd (connect s)) \<noteq> Some q"
      using False by (simp_all add: connect_fresh)
  next
    assume "readyPromise (snd (connect s)) = None"
    then show "resolveReady (snd (connect s)) = None" using False by (simp add: connect_fresh)
  next
    fix p assume "readyPromise (snd (connect s)) = Some p"
    then have "p = npromises s" using False by (simp add: connect_fresh)
    then show "p < npromises (snd (connect s))"
      "resolveReady (snd (connect s)) = Some p \<and> promises (snd (connect s)) p = Pending
         \<and> p \<notin> set (resolved (trace (snd (connect s))))
       \<or> resolveReady (snd (connect s)) = None \<and> promises (snd (connect s)) p = Fulfilled
         \<and> p \<in> set (resolved (trace (snd (connect s))))"
      using False fresh by (simp_all add: connect_fresh)
  qed
qed

lemma wiring_ok_step: "resolver_ok s \<Longrightarrow> wiring_ok s \<Longrightarrow> wiring_ok (step a s)"
  by (cases a)
     (simp_all add: wiring_ok_connect wiring_ok_sendMessage wiring_ok_ensureConnected
        wiring_ok_run_listeners wiring_ok_onmessage wiring_ok_elapse
        opened_def received_def errored_def closed_def onerror_def onclose_def invoke_def Let_def)

lemma wiring_ok_constructor: "wiring_ok (constructor ep)"
  by (simp add: wiring_ok_def refs_def constructor_def fresh_socket_def)

lemma reachable_ok: "resolver_ok (run as (constructor ep)) \<and> wiring_ok (run as (constructor ep))"
proof (induction as rule: rev_induct)
  case Nil
  show ?case by (simp add: resolver_ok_constructor wiring_ok_constructor)
next
  case (snoc a as)
  then show ?case by (simp add: resolver_ok_step wiring_ok_step)
qed

lemma resolved_member: "p \<in> set (resolved es) \<longleftrightarrow> ResolveReady p \<in> set es"
  by (induction es rule: resolved.induct) auto

lemma reachable_promise:
  assumes "readyPromise (run as (constructor ep)) = Some p"
  shows "if ResolveReady p \<in> set (trace (run as (constructor ep)))
         then promises (run as (constructor ep)) p = Fulfilled
         else promises (run as (constructor ep)) p = Pending"
  using reachable_ok [of as ep] assms
  by (auto simp: wiring_ok_def resolved_member)

text \<open>
  Claim C2, as the code has it. In every state a manager reaches from its constructor,
  \<open>_resolveReady\<close> of any one promise has been called at most once, and the promise of the
  latest \<open>connect\<close> is fulfilled if that call has happened and pending if not. A step in
  which \<open>_resolveReady\<close> is called is the receipt of a frame that parses to a value with a
  truthy \<open>ready\<close> field. The open event of a transport never calls it, and leaves the
  promise of the latest \<open>connect\<close> as it was.
\<close>

theorem ready_resolved_at_most_once:
  "count_list (trace (run as (constructor ep))) (ResolveReady p) \<le> 1
   \<and> (readyPromise (run as (constructor ep)) = Some p \<longrightarrow>
        (if ResolveReady p \<in> set (trace (run as (constructor ep)))
         then promises (run as (constructor ep)) p = Fulfilled
         else promises (run as (constructor ep)) p = Pending))
   \<and> (count_list (trace (step a s)) (ResolveReady p) \<noteq> count_list (trace s) (ResolveReady p) \<longrightarrow>
        (\<exists>k f v. a = Received k f \<and> decoded f = Inr v \<and> truthy (getprop v ''ready'')))
   \<and> count_list (trace (step (Opened k) s)) (ResolveReady p) = count_list (trace s) (ResolveReady p)
   \<and> (readyPromise (run as (constructor ep)) = Some p \<longrightarrow>
        promises (step (Opened k) (run as (constructor ep))) p = promises (run as (constructor ep)) p)"
proof (intro conjI impI)
  have "resolver_ok (run as (constructor ep))"
    by (intro resolver_ok_run resolver_ok_constructor)
  then have "distinct (resolved (trace (run as (constructor ep))))"
    by (simp add: resolver_ok_def)
  then show "count_list (trace (run as (constructor ep))) (ResolveReady p) \<le> 1"
    unfolding count_resolved by (rule count_distinct_le)
  show "\<exists>k f v. a = Received k f \<and> decoded f = Inr v \<and> truthy (getprop v ''ready'')"
    if "count_list (trace (step a s)) (ResolveReady p) \<noteq> count_list (trace s) (ResolveReady p)"
  proof -
    from that have "resolved (trace (step a s)) \<noteq> resolved (trace s)"
      unfolding count_resolved by auto
    with step_resolve [of a s] show ?thesis
      by (auto simp: ready_signal_def)
  qed
  show "count_list (trace (step (Opened k) s)) (ResolveReady p) = count_list (trace s) (ResolveReady p)"
    unfolding count_resolved by simp
  assume cur: "readyPromise (run as (constructor ep)) = Some p"
  then show "if ResolveReady p \<in> set (trace (run as (constructor ep)))
         then promises (run as (constructor ep)) p = Fulfilled
         else promises (run as (constructor ep)) p = Pending"
    by (rule reachable_promise)
  let ?s = "run as (constructor ep)"
  have "wiring_ok ?s" by (simp add: reachable_ok)
  then have "\<forall>l \<in> set (filter (\<lambda>l. fst l = EvOpen) (listeners (sockets (set_readyState k OPEN ?s) k))).
      readyPromise (set_readyState k OPEN ?s) \<noteq> Some (snd l)"
    by (auto simp: wiring_ok_def refs_def set_readyState_def)
  then have "keeps (readyPromise (set_readyState k OPEN ?s)) (set_readyState k OPEN ?s) (opened k ?s)"
    unfolding opened_def run_listeners_def by (rule fold_listener_keeps)
  with cur have "promises (opened k ?s) p = promises (set_readyState k OPEN ?s) p"
    by (simp add: keeps_def)
  then show "promises (step (Opened k) ?s) p = promises ?s p"
    by (simp add: set_readyState_def)
qed

text \<open>
  The theorem at the \<open>ready\<close> frame after \<open>connect\<close> and the open event: the frame resolves,
  and two such frames resolve once and leave the promise fulfilled.
\<close>

theorem ready_resolved_at_most_once_witness:
  "(let s = run [Connect, Opened 0] (constructor None);
        f = TextFrame (Inr (JObj [(''ready'', JBool True)]))
    in count_list (trace (step (Received 0 f) s)) (ResolveReady 0) \<noteq> count_list (trace s) (ResolveReady 0)
       \<and> (\<exists>k g v. Received 0 f = Received k g \<and> decoded g = Inr v \<and> truthy (getprop v ''ready''))
       \<and> count_list (trace (run [Connect, Opened 0, Received 0 f, Received 0 f] (constructor None)))
            (ResolveReady 0) \<le> 1
       \<and> readyPromise (run [Connect, Opened 0, Received 0 f, Received 0 f] (constructor None)) = Some 0
       \<and> promises (run [Connect, Opened 0, Received 0 f, Received 0 f] (constructor None)) 0 = Fulfilled)"
proof -
  let ?s = "run [Connect, Opened 0] (constructor None)"
  let ?f = "TextFrame (Inr (JObj [(''ready'', JBool True)]))"
  let ?t = "run [Connect, Opened 0, Received 0 ?f, Received 0 ?f] (constructor None)"
  have h: "count_list (trace (step (Received 0 ?f) ?s)) (ResolveReady 0) \<noteq> count_list (trace ?s) (ResolveReady 0)"
    by (simp add: eval_defs)
  have c: "readyPromise ?t = Some 0" "ResolveReady 0 \<in> set (trace ?t)"
    by (simp_all add: eval_defs)
  from ready_resolved_at_most_once [of "[Connect, Opened 0, Received 0 ?f, Received 0 ?f]" None 0 "Received 0 ?f" ?s] h c
  have "(\<exists>k g v. Received 0 ?f = Received k g \<and> decoded g = Inr v \<and> truthy (getprop v ''ready''))"
    and "count_list (trace ?t) (ResolveReady 0) \<le> 1"
    and "promises ?t 0 = Fulfilled"
    by (blast, blast, metis)
  with h c show ?thesis unfolding Let_def by (intro conjI)
qed

text \<open>
  After \<open>connect\<close> and the open event, with no frame received, the readiness promise is
  pending: it was resolved zero times, not once.
\<close>

theorem ready_resolved_at_most_once_counterexample:
  "(let s = run [Connect, Opened 0] (constructor None)
    in readyPromise s = Some 0 \<and> promises s 0 = Pending
       \<and> count_list (trace s) (ResolveReady 0) = 0)"
  by (simp add: eval_defs)

text \<open>
  Claim C7, as the code has it. Once \<open>_resolveReady\<close> is \<open>null\<close>, a frame with a truthy
  \<open>ready\<close> field settles no promise and, when \<open>onReady\<close> and \<open>onConnect\<close> return normally,
  does not throw; it does call \<open>onReady\<close> and then \<open>onConnect\<close> again. \<open>_resolveReady\<close> is
  \<open>null\<close> after a \<open>ready\<close> frame whose \<open>onReady\<close> returned, and stays \<open>null\<close> until the next
  \<open>connect\<close>.
\<close>

theorem second_ready_signal:
  "(resolveReady s = None \<and> onReady (handlers s) = Returns \<and> onConnect (handlers s) = Returns
      \<and> decoded f = Inr v \<and> ready_signal v \<longrightarrow>
      fst (onmessage f s) = Returns
      \<and> trace (snd (onmessage f s)) = trace s @ [Call OnReady (isSpeaking s), Call OnConnect (isSpeaking s)]
      \<and> promises (snd (onmessage f s)) = promises s
      \<and> resolveReady (snd (onmessage f s)) = None)
   \<and> (onReady (handlers s) = Returns \<and> decoded f = Inr v \<and> ready_signal v \<longrightarrow>
      resolveReady (snd (onmessage f s)) = None)
   \<and> (Connect \<notin> set as \<and> resolveReady s = None \<longrightarrow> resolveReady (run as s) = None)"
proof (intro conjI impI)
  show "resolveReady (run as s) = None" if "Connect \<notin> set as \<and> resolveReady s = None"
    using that by (simp add: run_resolveReady_None)
  show "resolveReady (snd (onmessage f s)) = None"
    if "onReady (handlers s) = Returns \<and> decoded f = Inr v \<and> ready_signal v"
    using that
    by (simp add: onmessage_Inr dispatch_def invoke_def ready_signal_def split: outcome.splits)
  assume h: "resolveReady s = None \<and> onReady (handlers s) = Returns \<and> onConnect (handlers s) = Returns
      \<and> decoded f = Inr v \<and> ready_signal v"
  then have d: "dispatch v s = (Returns, emit (Call OnConnect (isSpeaking s)) (emit (Call OnReady (isSpeaking s)) s))"
    by (simp add: dispatch_def invoke_def ready_signal_def resolve_ready_def)
  with h have m: "onmessage f s = (Returns, emit (Call OnConnect (isSpeaking s)) (emit (Call OnReady (isSpeaking s)) s))"
    by (simp add: onmessage_Inr)
  show "fst (onmessage f s) = Returns" by (simp add: m)
  show "trace (snd (onmessage f s)) = trace s @ [Call OnReady (isSpeaking s), Call OnConnect (isSpeaking s)]"
    by (simp add: m)
  show "promises (snd (onmessage f s)) = promises s" by (simp add: m)
  show "resolveReady (snd (onmessage f s)) = None" using h by (simp add: m)
qed

text \<open>The theorem at a second \<open>ready\<close> frame on a fresh connection.\<close>

theorem second_ready_signal_witness:
  "(let f = TextFrame (Inr (JObj [(''ready'', JBool True)]));
        s1 = snd (onmessage f (snd (connect (constructor None))))
    in resolveReady s1 = None
       \<and> fst (onmessage f s1) = Returns
       \<and> trace (snd (onmessage f s1)) = trace s1 @ [Call OnReady False, Call OnConnect False]
       \<and> promises (snd (onmessage f s1)) = promises s1
       \<and> resolveReady (snd (onmessage f s1)) = None
       \<and> resolveReady (run [Opened 0, SendMessage JNull, Elapse 10] s1) = None)"
proof -
  let ?f = "TextFrame (Inr (JObj [(''ready'', JBool True)]))"
  let ?v = "JObj [(''ready'', JBool True)]"
  let ?s0 = "snd (connect (constructor None))"
  let ?s1 = "snd (onmessage ?f ?s0)"
  have h0: "onReady (handlers ?s0) = Returns \<and> decoded ?f = Inr ?v \<and> ready_signal ?v"
    by (simp add: constructor_def noop_handlers_def ready_signal_def)
  from second_ready_signal [of ?s0 ?f ?v] h0 have r1: "resolveReady ?s1 = None" by blast
  have h1: "resolveReady ?s1 = None \<and> onReady (handlers ?s1) = Returns \<and> onConnect (handlers ?s1) = Returns
      \<and> decoded ?f = Inr ?v \<and> ready_signal ?v"
    using r1 by (simp add: constructor_def noop_handlers_def ready_signal_def)
  have sp: "isSpeaking ?s1 = False"
    by (simp add: eval_defs)
  have nc: "Connect \<notin> set [Opened 0, SendMessage JNull, Elapse 10] \<and> resolveReady ?s1 = None"
    using r1 by simp
  from second_ready_signal [of ?s1 ?f ?v "[Opened 0, SendMessage JNull, Elapse 10]"] h1 nc sp r1
  show ?thesis unfolding Let_def by (intro conjI) (simp_all only: , blast+)
qed

text \<open>The second \<open>ready\<close> frame on a connection calls both handlers again.\<close>

theorem second_ready_signal_counterexample:
  "(let f = TextFrame (Inr (JObj [(''ready'', JBool True)]));
        s1 = run [Connect, Opened 0, Received 0 f] (constructor None)
    in frame_calls f s1 = [OnReady, OnConnect]
       \<and> trace (step (Received 0 f) s1) = trace s1 @ [Call OnReady False, Call OnConnect False])"
  by (simp add: eval_defs frame_calls_def)

end
